theory Spec2Isabelle
  imports Main
begin

section \<open>Data model of \<open>internal/provider/helper.go\<close>\<close>

text \<open>
  Go errors are values built by \<open>fmt.Errorf\<close>: either from a message alone, or from a
  message prefix that wraps another error with \<open>%w\<close>. Errors returned by the
  Kubernetes client, the URL parser and the port forwarder are arbitrary values of the
  same type.
\<close>

datatype error = Errorf string | Wrapf string error

text \<open>The \<open>Error()\<close> method: the text printed by \<open>%v\<close>.\<close>

fun Error :: "error \<Rightarrow> string" where
  "Error (Errorf msg) = msg"
| "Error (Wrapf prefix err) = prefix @ Error err"

text \<open>
  A pod as far as \<open>getPodName\<close> reads it: \<open>pod.Name\<close> and \<open>pod.Status.Phase\<close>.
  \<open>v1.PodPhase\<close> is a string type; \<open>v1.PodRunning\<close> is its constant \<open>"Running"\<close>.
\<close>

type_synonym PodPhase = string

definition PodPending :: PodPhase where "PodPending = ''Pending''"
definition PodRunning :: PodPhase where "PodRunning = ''Running''"

record Pod =
  Name :: string
  Phase :: PodPhase

record PodList =
  Items :: "Pod list"

text \<open>
  A value of type \<open>interface{}\<close> with its dynamic type. Only the distinction between a
  string and anything else matters to \<open>raw.(string)\<close>.
\<close>

datatype iface = IString string | IInt int | IBool bool | INil | IList "iface list"

datatype panic = TypeAssertionPanic

section \<open>The helper functions\<close>

subsection \<open>\<open>getPodName\<close>\<close>

text \<open>
  The loop over \<open>pods.Items\<close> skips every pod whose phase differs from \<open>PodRunning\<close>
  and returns at the first other one. The result is the Go pair \<open>(string, error)\<close>,
  the error being \<open>nil\<close> (\<open>None\<close>) on success.
\<close>

fun getPodName_loop :: "Pod list \<Rightarrow> string \<times> error option" where
  "getPodName_loop [] = ('''', Some (Errorf ''no live pods behind the service''))"
| "getPodName_loop (pod # rest) =
     (if Phase pod \<noteq> PodRunning then getPodName_loop rest
      else (Name pod, None))"

definition getPodName :: "PodList \<Rightarrow> string \<times> error option" where
  "getPodName pods = getPodName_loop (Items pods)"

subsection \<open>\<open>mapToSelectorStr\<close>\<close>

text \<open>
  \<open>range\<close> over a Go map visits every entry once, in an order the language leaves
  open. The map is given as the list of its entries in the order this run of the loop
  visits them; the loop body is the source's.
\<close>

fun mapToSelectorStr_loop :: "string \<Rightarrow> (string \<times> string) list \<Rightarrow> string" where
  "mapToSelectorStr_loop selector [] = selector"
| "mapToSelectorStr_loop selector ((k, v) # rest) =
     mapToSelectorStr_loop
       ((if selector \<noteq> '''' then selector @ '','' else selector) @ (k @ ''='' @ v)) rest"

definition mapToSelectorStr :: "(string \<times> string) list \<Rightarrow> string" where
  "mapToSelectorStr msel = mapToSelectorStr_loop '''' msel"

subsection \<open>\<open>convertToString\<close>\<close>

text \<open>
  \<open>raw.(string)\<close> without the comma-ok form panics when the dynamic type is not
  \<open>string\<close>. \<open>val\<close> has the length of \<open>raw_list\<close> and index \<open>i\<close> is written at
  iteration \<open>i\<close>; the accumulator holds the part written so far.
\<close>

fun assert_string :: "iface \<Rightarrow> panic + string" where
  "assert_string (IString s) = Inr s"
| "assert_string _ = Inl TypeAssertionPanic"

fun convertToString_loop :: "string list \<Rightarrow> iface list \<Rightarrow> panic + string list" where
  "convertToString_loop val [] = Inr val"
| "convertToString_loop val (raw # rest) =
     (case assert_string raw of
        Inl p \<Rightarrow> Inl p
      | Inr s \<Rightarrow> convertToString_loop (val @ [s]) rest)"

definition convertToString :: "iface list \<Rightarrow> panic + string list" where
  "convertToString raw_list = convertToString_loop [] raw_list"

subsection \<open>\<open>contains\<close>\<close>

fun contains :: "string list \<Rightarrow> string \<Rightarrow> bool" where
  "contains [] v = False"
| "contains (s # elems) v = (if v = s then True else contains elems v)"

section \<open>The orchestrator \<open>tryPortForwardIfNeeded\<close>\<close>

subsection \<open>Collaborators\<close>

text \<open>
  Modelled from the spec: the types \<open>cockroachClient\<close> and its \<open>kubeConn\<close> are declared
  outside \<open>helper.go\<close>. The spec's configuration collaborator supplies an optional
  connection configuration with a namespace, a service name and a remote port; the
  fields below are the ones \<open>helper.go\<close> reads, under the names it reads them by.
  A nil \<open>kubeConfig\<close> pointer is \<open>None\<close>.
\<close>

record Config =
  Host :: string

record kubeConn =
  kubeConfig :: "Config option"
  nameSpace :: string
  serviceName :: string
  remotePort :: string

record cockroachClient =
  kubeConn :: kubeConn

text \<open>A service as far as the code reads it: \<open>svc.Namespace\<close> and \<open>svc.Spec.Selector\<close>.\<close>

record Service =
  Namespace :: string
  Selector :: "(string \<times> string) list"

text \<open>A forwarded port is a pair of a local and a remote port number.\<close>

type_synonym ForwardedPort = "nat \<times> nat"

text \<open>
  The answers of the external collaborators during one attempt: the Kubernetes client
  (\<open>Services(ns).Get\<close>, \<open>Pods(ns).List\<close>), \<open>url.Parse\<close>, \<open>spdy.RoundTripperFor\<close>,
  \<open>portforward.NewOnAddresses\<close> (given the dial URL, the addresses and the ports) and
  the forwarder's \<open>GetPorts\<close>. A Go result \<open>(value, err)\<close> with \<open>err != nil\<close> is
  \<open>Inl err\<close>.
\<close>

record world =
  ServicesGet :: "string \<Rightarrow> string \<Rightarrow> error + Service"
  PodsList :: "string \<Rightarrow> string \<Rightarrow> error + PodList"
  urlParse :: "string \<Rightarrow> error + string"
  RoundTripperFor :: "Config \<Rightarrow> error + unit"
  NewOnAddresses :: "string \<Rightarrow> string list \<Rightarrow> string list \<Rightarrow> error + unit"
  GetPorts :: "error + ForwardedPort list"

subsection \<open>Formatting\<close>

text \<open>The verb \<open>%d\<close> on a length: decimal digits, most significant first.\<close>

definition digit :: "nat \<Rightarrow> char" where
  "digit d = ''0123456789'' ! d"

function itoa :: "nat \<Rightarrow> string" where
  "itoa n = (if n < 10 then [digit n] else itoa (n div 10) @ [digit (n mod 10)])"
  by pat_completeness auto
termination
  by (relation "measure (\<lambda>n. n)") auto

declare itoa.simps [simp del]

subsection \<open>The setup sequence (the second goroutine)\<close>

text \<open>
  What the setup goroutine does, in program order. Its control flow depends on the
  collaborators' answers only, so one attempt is the list of its actions; the channel
  operations among them (\<open>errCh <- err\<close>, \<open><-readyCh\<close>, the deferred
  \<open>close(errCh)\<close>) take effect, and may block, in the system below.

  Modelled from the spec: \<open>logError\<close>, \<open>logInfo\<close> and \<open>logDebug\<close> are defined outside
  \<open>helper.go\<close>; the spec says they produce log lines of error, informational and debug
  severity. A log call is an action carrying the formatted line.
\<close>

datatype action =
    CallServicesGet string string
  | CallPodsList string string
  | CallUrlParse string
  | CallRoundTripperFor
  | CallNewOnAddresses string "string list" "string list"
  | GoForwardPorts
  | RecvReady
  | CallGetPorts
  | LogError string
  | LogInfo string
  | LogDebug string
  | SendErrCh error
  | CloseErrCh

text \<open>Lines 118 to 131: after \<open><-readyCh\<close>.\<close>

definition after_ready :: "world \<Rightarrow> kubeConn \<Rightarrow> string \<Rightarrow> string \<Rightarrow> action list" where
  "after_ready W conn localPort livePod =
     CallGetPorts #
     (case GetPorts W of
        Inl err \<Rightarrow>
          [LogError (''failed to get port-forward ports: '' @ Error err),
           SendErrCh (Wrapf ''failed to get port-forward ports: '' err)]
      | Inr actualPorts \<Rightarrow>
          if length actualPorts \<noteq> 1 then
            (let err = Errorf (''unexpected number of forwarded ports: got '' @
                               itoa (length actualPorts) @ '', expected 1'')
             in [LogError (Error err), SendErrCh err])
          else
            [LogInfo (''Port forwarding established: '' @ localPort @ '':'' @ remotePort conn @
                      '' -> '' @ livePod)])"

text \<open>Lines 80 to 116: from the dial URL to the wait for readiness.\<close>

definition start_tunnel ::
  "world \<Rightarrow> Config \<Rightarrow> kubeConn \<Rightarrow> string \<Rightarrow> string \<Rightarrow> action list" where
  "start_tunnel W cfg conn localPort livePod =
     (let target = Host cfg @ ''/api/v1/namespaces/'' @ nameSpace conn @ ''/pods/'' @ livePod @
                   ''/portforward''
      in CallUrlParse target #
         (case urlParse W target of
            Inl err \<Rightarrow>
              [LogError (''failed to construct server URL: '' @ Error err),
               SendErrCh (Wrapf ''failed to construct server URL: '' err)]
          | Inr serverURL \<Rightarrow>
              CallRoundTripperFor #
              (case RoundTripperFor W cfg of
                 Inl err \<Rightarrow>
                   [LogError (''failed to create round tripper: '' @ Error err),
                    SendErrCh (Wrapf ''failed to create round tripper: '' err)]
               | Inr _ \<Rightarrow>
                   (let addresses = [''127.0.0.1''];
                        ports = [localPort @ '':'' @ remotePort conn]
                    in CallNewOnAddresses serverURL addresses ports #
                       (case NewOnAddresses W serverURL addresses ports of
                          Inl err \<Rightarrow>
                            [LogError (''failed to create port-forward '' @ localPort @ '':'' @
                                       remotePort conn @ '': '' @ Error err),
                             SendErrCh (Wrapf ''failed to create port-forward: '' err)]
                        | Inr _ \<Rightarrow>
                            GoForwardPorts # RecvReady #
                            after_ready W conn localPort livePod)))))"

text \<open>Lines 44 to 78: from the service lookup to the choice of the live pod.\<close>

definition find_backend :: "world \<Rightarrow> Config \<Rightarrow> kubeConn \<Rightarrow> string \<Rightarrow> action list" where
  "find_backend W cfg conn localPort =
     CallServicesGet (nameSpace conn) (serviceName conn) #
     (case ServicesGet W (nameSpace conn) (serviceName conn) of
        Inl err \<Rightarrow>
          [LogError (''failed to get Kubernetes service '' @ serviceName conn @
                     '' in namespace '' @ nameSpace conn @ '': '' @ Error err),
           SendErrCh (Wrapf ''failed to get Kubernetes service: '' err)]
      | Inr svc \<Rightarrow>
          (let selector = mapToSelectorStr (Selector svc) in
           if selector = '''' then
             (let err = Errorf (''service '' @ serviceName conn @ '' has no selector'')
              in [LogError (''failed to get service selector: '' @ Error err), SendErrCh err])
           else
             CallPodsList (Namespace svc) selector #
             (case PodsList W (Namespace svc) selector of
                Inl err \<Rightarrow>
                  [LogError (''failed to get pod list for selector '' @ selector @ '': '' @
                             Error err),
                   SendErrCh (Wrapf ''failed to get pod list: '' err)]
              | Inr pods \<Rightarrow>
                  if length (Items pods) = 0 then
                    (let err = Errorf (''no CockroachDB pods found with selector '' @ selector)
                     in [LogError (Error err), SendErrCh err])
                  else
                    (case getPodName pods of
                       (livePod, Some err) \<Rightarrow>
                         [LogError (''failed to get live CockroachDB pod: '' @ Error err),
                          SendErrCh (Wrapf ''failed to get live pod: '' err)]
                     | (livePod, None) \<Rightarrow>
                         start_tunnel W cfg conn localPort livePod))))"

text \<open>The whole goroutine: its body, then the deferred \<open>close(errCh)\<close> on every return.\<close>

definition setup_sequence :: "world \<Rightarrow> Config \<Rightarrow> kubeConn \<Rightarrow> string \<Rightarrow> action list" where
  "setup_sequence W cfg conn localPort = find_backend W cfg conn localPort @ [CloseErrCh]"

subsection \<open>The concurrent paths and the channels\<close>

text \<open>
  The value the call returns: \<open>nil\<close> at line 143, or \<open>diag.FromErr\<close> of the value
  received from \<open>errCh\<close> at line 139 (\<open>None\<close> is the nil error a closed, drained
  channel yields).
\<close>

datatype diags = NilDiags | FromErr "error option"

datatype path = Unspawned | Waiting | Finished

text \<open>
  The state of one call. A channel of \<open>struct{}\<close> that is only ever closed is the flag
  "closed"; \<open>errCh\<close> is its buffer and its closed flag, with the capacity of
  \<open>make(chan error, 1)\<close>. \<open>todo\<close> is what the setup goroutine has still to do and
  \<open>performed\<close> what it has done; \<open>others\<close> holds the log lines of the interrupt
  watcher and of the calling path. \<open>result\<close> is \<open>None\<close> while the caller is suspended
  in the \<open>select\<close>.
\<close>

record sys =
  stopCh :: bool
  readyCh :: bool
  errCh :: "error list"
  errChClosed :: bool
  watcher :: path
  todo :: "action list"
  performed :: "action list"
  others :: "action list"
  forwarding :: bool
  result :: "diags option"
  panicked :: bool

definition errCh_capacity :: nat where
  "errCh_capacity = 1"

text \<open>
  The call itself, up to the point where it either has returned (nil configuration) or
  has made the channels, started both goroutines and reached the \<open>select\<close>. The two
  booleans say whether the caller's \<open>stopCh\<close> and \<open>readyCh\<close> are already closed.
\<close>

definition tryPortForwardIfNeeded ::
  "cockroachClient \<Rightarrow> world \<Rightarrow> bool \<Rightarrow> bool \<Rightarrow> string \<Rightarrow> sys" where
  "tryPortForwardIfNeeded meta W stopClosed readyClosed localPort =
     (case kubeConfig (kubeConn meta) of
        Some cfg \<Rightarrow>
          \<lparr>stopCh = stopClosed, readyCh = readyClosed, errCh = [], errChClosed = False,
           watcher = Waiting,
           todo = setup_sequence W cfg (kubeConn meta) localPort,
           performed = [], others = [], forwarding = False, result = None,
           panicked = False\<rparr>
      | None \<Rightarrow>
          \<lparr>stopCh = stopClosed, readyCh = readyClosed, errCh = [], errChClosed = False,
           watcher = Unspawned, todo = [], performed = [], others = [],
           forwarding = False, result = Some NilDiags, panicked = False\<rparr>)"

text \<open>
  One step of one path, chosen by the scheduler. A step that is not enabled (a blocked
  channel operation, a path that is not running) leaves the state as it is.
  \<^item> \<open>Setup\<close>: the next action of the setup goroutine. A send needs room in the buffer
    and panics on a closed channel; \<open><-readyCh\<close> needs the channel closed.
  \<^item> \<open>Forwarder\<close>: the forwarding loop, once launched, reports readiness by closing
    \<open>readyCh\<close>.
  \<^item> \<open>Signal\<close>: SIGINT or SIGTERM arrives; the watcher logs, closes \<open>stopCh\<close> and ends.
    Closing a closed channel panics.
  \<^item> \<open>SelectReady\<close>, \<open>SelectErr\<close>: the caller's \<open>select\<close> takes the case that is ready;
    when both are, Go picks either.
\<close>

datatype choice = Setup | Forwarder | Signal | SelectReady | SelectErr

definition advance :: "action \<Rightarrow> action list \<Rightarrow> sys \<Rightarrow> sys" where
  "advance a rest s = s\<lparr>todo := rest, performed := performed s @ [a]\<rparr>"

fun setup_step :: "sys \<Rightarrow> sys" where
  "setup_step s =
     (case todo s of
        [] \<Rightarrow> s
      | a # rest \<Rightarrow>
          (case a of
             SendErrCh e \<Rightarrow>
               if errChClosed s then s\<lparr>panicked := True\<rparr>
               else if length (errCh s) < errCh_capacity
                 then advance a rest (s\<lparr>errCh := errCh s @ [e]\<rparr>)
               else s
           | RecvReady \<Rightarrow> if readyCh s then advance a rest s else s
           | GoForwardPorts \<Rightarrow> advance a rest (s\<lparr>forwarding := True\<rparr>)
           | CloseErrCh \<Rightarrow>
               if errChClosed s then s\<lparr>panicked := True\<rparr>
               else advance a rest (s\<lparr>errChClosed := True\<rparr>)
           | _ \<Rightarrow> advance a rest s))"

fun step :: "choice \<Rightarrow> sys \<Rightarrow> sys" where
  "step c s =
     (if panicked s then s
      else case c of
        Setup \<Rightarrow> setup_step s
      | Forwarder \<Rightarrow>
          if forwarding s \<and> \<not> readyCh s then s\<lparr>readyCh := True\<rparr> else s
      | Signal \<Rightarrow>
          if watcher s = Waiting then
            (if stopCh s
             then s\<lparr>others := others s @ [LogInfo ''Stopping a forward process...''],
                     panicked := True\<rparr>
             else s\<lparr>others := others s @ [LogInfo ''Stopping a forward process...''],
                     stopCh := True, watcher := Finished\<rparr>)
          else s
      | SelectReady \<Rightarrow>
          if result s = None \<and> readyCh s then
            s\<lparr>others := others s @ [LogDebug ''Port-forwarding is ready to handle traffic''],
              result := Some NilDiags\<rparr>
          else s
      | SelectErr \<Rightarrow>
          if result s = None then
            (case errCh s of
               e # buf \<Rightarrow> s\<lparr>errCh := buf, result := Some (FromErr (Some e))\<rparr>
             | [] \<Rightarrow> if errChClosed s then s\<lparr>result := Some (FromErr None)\<rparr> else s)
          else s)"

text \<open>A run under a schedule: the scheduler's choices, one after the other.\<close>

fun run :: "choice list \<Rightarrow> sys \<Rightarrow> sys" where
  "run [] s = s"
| "run (c # cs) s = run cs (step c s)"

text \<open>The errors a list of actions sends on \<open>errCh\<close>, in order.\<close>

fun sends :: "action list \<Rightarrow> error list" where
  "sends [] = []"
| "sends (SendErrCh e # as) = e # sends as"
| "sends (_ # as) = sends as"

text \<open>The calls to the discovery and transport collaborators among a list of actions.\<close>

fun is_call :: "action \<Rightarrow> bool" where
  "is_call (CallServicesGet _ _) = True"
| "is_call (CallPodsList _ _) = True"
| "is_call (CallUrlParse _) = True"
| "is_call CallRoundTripperFor = True"
| "is_call (CallNewOnAddresses _ _ _) = True"
| "is_call GoForwardPorts = True"
| "is_call CallGetPorts = True"
| "is_call _ = False"

fun is_success_log :: "action \<Rightarrow> bool" where
  "is_success_log (LogInfo _) = True"
| "is_success_log _ = False"

section \<open>Specification-side notions\<close>

text \<open>Following the spec's words: a selector clause is \<open>key=value\<close>, unescaped.\<close>

definition spec_clause :: "string \<times> string \<Rightarrow> string" where
  "spec_clause kv = fst kv @ ''='' @ snd kv"

text \<open>Following the spec's words: clauses joined by commas, none leading or trailing.\<close>

fun spec_comma_joined :: "string list \<Rightarrow> string" where
  "spec_comma_joined [] = ''''"
| "spec_comma_joined [c] = c"
| "spec_comma_joined (c # d # cs) = c @ '','' @ spec_comma_joined (d # cs)"

text \<open>Following the spec's words: the first Running candidate in input order.\<close>

definition spec_first_running :: "Pod list \<Rightarrow> Pod option" where
  "spec_first_running ps = List.find (\<lambda>p. Phase p = PodRunning) ps"

text \<open>The dynamic type of a value is \<open>string\<close>, and the string it then holds.\<close>

definition is_string :: "iface \<Rightarrow> bool" where
  "is_string x = (case x of IString _ \<Rightarrow> True | _ \<Rightarrow> False)"

definition the_string :: "iface \<Rightarrow> string" where
  "the_string x = (case x of IString s \<Rightarrow> s | _ \<Rightarrow> '''')"

section \<open>Shapes of the setup sequence\<close>

text \<open>
  Actions that neither log, nor send, nor close: the collaborator calls, the launch of
  the forwarding loop and the wait for readiness.
\<close>

fun is_quiet :: "action \<Rightarrow> bool" where
  "is_quiet (LogError _) = False"
| "is_quiet (LogInfo _) = False"
| "is_quiet (LogDebug _) = False"
| "is_quiet (SendErrCh _) = False"
| "is_quiet CloseErrCh = False"
| "is_quiet _ = True"

text \<open>A body that ends in an error branch: log the error, send it, return.\<close>

definition failing_shape :: "action list \<Rightarrow> bool" where
  "failing_shape t = (\<exists>pre m e. t = pre @ [LogError m, SendErrCh e] \<and> list_all is_quiet pre)"

text \<open>A body that runs to line 131: the success line is its last action.\<close>

definition success_shape :: "action list \<Rightarrow> bool" where
  "success_shape t = (\<exists>pre m. t = pre @ [LogInfo m] \<and> list_all is_quiet pre)"

text \<open>The collaborator calls made before the forwarding loop is launched.\<close>

fun is_early :: "action \<Rightarrow> bool" where
  "is_early (CallServicesGet _ _) = True"
| "is_early (CallPodsList _ _) = True"
| "is_early (CallUrlParse _) = True"
| "is_early CallRoundTripperFor = True"
| "is_early (CallNewOnAddresses _ _ _) = True"
| "is_early _ = False"

text \<open>A body that fails before line 114, and one that gets as far as \<open><-readyCh\<close>.\<close>

definition early_failure :: "action list \<Rightarrow> bool" where
  "early_failure t =
     (\<exists>pre m e. t = pre @ [LogError m, SendErrCh e] \<and> list_all is_early pre)"

definition reaches_ready :: "world \<Rightarrow> kubeConn \<Rightarrow> string \<Rightarrow> action list \<Rightarrow> bool" where
  "reaches_ready W conn localPort t =
     (\<exists>pre livePod.
        t = pre @ GoForwardPorts # RecvReady # after_ready W conn localPort livePod \<and>
        list_all is_early pre)"

text \<open>Every send in the list is followed by the deferred close and nothing else.\<close>

fun send_then_close :: "action list \<Rightarrow> bool" where
  "send_then_close [] = True"
| "send_then_close (SendErrCh e # rest) = (rest = [CloseErrCh])"
| "send_then_close (_ # rest) = send_then_close rest"

section \<open>Invariants of a run\<close>

text \<open>
  The errors in the buffer of \<open>errCh\<close> and the errors the goroutine has still to send
  are at most one together; the channel is closed only when the goroutine has nothing
  left to do; the deferred close is its last action.
\<close>

definition chan_inv :: "sys \<Rightarrow> bool" where
  "chan_inv s =
     (length (errCh s) + length (sends (todo s)) \<le> 1 \<and>
      (errChClosed s \<longrightarrow> todo s = []) \<and>
      CloseErrCh \<notin> set (butlast (todo s)))"

text \<open>While \<open>readyCh\<close> is open, \<open>GetPorts\<close> has not been called and is not next.\<close>

definition ready_guard :: "sys \<Rightarrow> bool" where
  "ready_guard s =
     (readyCh s \<or>
      (CallGetPorts \<notin> set (performed s) \<and>
       CallGetPorts \<notin> set (takeWhile (\<lambda>a. a \<noteq> RecvReady) (todo s))))"

text \<open>The forwarding loop runs only once the goroutine has launched it.\<close>

definition fwd_inv :: "sys \<Rightarrow> bool" where
  "fwd_inv s = (forwarding s \<longrightarrow> GoForwardPorts \<in> set (performed s))"

text \<open>
  While the forwarding loop cannot be launched any more, \<open>readyCh\<close> stays open and the
  one error of the sequence is either still to be sent, or in the buffer, or returned.
\<close>

definition report_inv :: "error \<Rightarrow> sys \<Rightarrow> bool" where
  "report_inv e s =
     (\<not> readyCh s \<and> \<not> forwarding s \<and>
      GoForwardPorts \<notin> set (todo s) \<and> RecvReady \<notin> set (todo s) \<and>
      chan_inv s \<and>
      (case result s of
         None \<Rightarrow> errCh s @ sends (todo s) = [e]
       | Some r \<Rightarrow> r = FromErr (Some e)))"

section \<open>The spec's scenarios as concrete inputs\<close>

definition scenario_config :: Config where
  "scenario_config = \<lparr>Host = ''https://kube''\<rparr>"

definition scenario_client :: "Config option \<Rightarrow> cockroachClient" where
  "scenario_client cfg =
     \<lparr>kubeConn = \<lparr>kubeConfig = cfg, nameSpace = ''db'', serviceName = ''crdb'',
                  remotePort = ''26257''\<rparr>\<rparr>"

text \<open>Collaborators that all succeed, with the given selector, pods and bound ports.\<close>

definition scenario_world ::
  "(string \<times> string) list \<Rightarrow> Pod list \<Rightarrow> (error + ForwardedPort list) \<Rightarrow> world" where
  "scenario_world sel pods ports =
     \<lparr>ServicesGet = (\<lambda>ns name. Inr \<lparr>Namespace = ns, Selector = sel\<rparr>),
      PodsList = (\<lambda>ns selector. Inr \<lparr>Items = pods\<rparr>),
      urlParse = (\<lambda>u. Inr u),
      RoundTripperFor = (\<lambda>c. Inr ()),
      NewOnAddresses = (\<lambda>u addresses ports. Inr ()),
      GetPorts = ports\<rparr>"

definition scenario_pods :: "Pod list" where
  "scenario_pods = [\<lparr>Name = ''p0'', Phase = PodPending\<rparr>, \<lparr>Name = ''p1'', Phase = PodRunning\<rparr>]"

text \<open>Scenario D: the tunnel reports two bound ports.\<close>

definition scenario_D :: world where
  "scenario_D = scenario_world [(''app'', ''cockroachdb'')] scenario_pods
                  (Inr [(8080, 26257), (8081, 26258)])"

text \<open>Scenario B: the service has an empty selector.\<close>

definition scenario_B :: world where
  "scenario_B = scenario_world [] scenario_pods (Inr [(8080, 26257)])"

section \<open>Backend Picker\<close>

lemma getPodName_loop_skip:
  "\<forall>q \<in> set before. Phase q \<noteq> PodRunning \<Longrightarrow>
     getPodName_loop (before @ rest) = getPodName_loop rest"
  by (induction before) simp_all

lemma find_running_skip:
  "\<forall>q \<in> set before. Phase q \<noteq> PodRunning \<Longrightarrow>
     List.find (\<lambda>p. Phase p = PodRunning) (before @ rest) =
     List.find (\<lambda>p. Phase p = PodRunning) rest"
  by (induction before) simp_all

lemma getPodName_loop_none:
  "\<forall>q \<in> set ps. Phase q \<noteq> PodRunning \<Longrightarrow>
     getPodName_loop ps = ('''', Some (Errorf ''no live pods behind the service''))"
  by (induction ps) simp_all

lemma find_running_none:
  "\<forall>q \<in> set ps. Phase q \<noteq> PodRunning \<Longrightarrow>
     List.find (\<lambda>p. Phase p = PodRunning) ps = None"
  by (induction ps) simp_all

text \<open>
  Claim C2. Whenever the pod list holds at least one pod in phase Running,
  \<open>getPodName\<close> returns the name of the first such pod in input order and a nil
  error; on the list \<open>[p0 Pending, p1 Running]\<close> it returns \<open>p1\<close>.
\<close>

theorem getPodName_first_running:
  "((\<exists>p \<in> set (Items pods). Phase p = PodRunning) \<longrightarrow>
     (\<exists>before p after.
        Items pods = before @ p # after \<and>
        (\<forall>q \<in> set before. Phase q \<noteq> PodRunning) \<and>
        Phase p = PodRunning \<and>
        spec_first_running (Items pods) = Some p \<and>
        getPodName pods = (Name p, None))) \<and>
   getPodName \<lparr>Items = [\<lparr>Name = ''p0'', Phase = PodPending\<rparr>,
                         \<lparr>Name = ''p1'', Phase = PodRunning\<rparr>]\<rparr> = (''p1'', None)"
proof (intro conjI impI)
  assume "\<exists>p \<in> set (Items pods). Phase p = PodRunning"
  then obtain before p after where split:
    "Items pods = before @ p # after" "Phase p = PodRunning"
    "\<forall>q \<in> set before. Phase q \<noteq> PodRunning"
    using split_list_first_prop [of "Items pods" "\<lambda>p. Phase p = PodRunning"] by blast
  have found: "spec_first_running (Items pods) = Some p"
    unfolding spec_first_running_def using split by (simp add: find_running_skip)
  have "getPodName pods = (Name p, None)"
    unfolding getPodName_def using split by (simp add: getPodName_loop_skip)
  with split found show
    "\<exists>before p after.
        Items pods = before @ p # after \<and>
        (\<forall>q \<in> set before. Phase q \<noteq> PodRunning) \<and>
        Phase p = PodRunning \<and>
        spec_first_running (Items pods) = Some p \<and>
        getPodName pods = (Name p, None)"
    by blast
next
  show "getPodName \<lparr>Items = [\<lparr>Name = ''p0'', Phase = PodPending\<rparr>,
                         \<lparr>Name = ''p1'', Phase = PodRunning\<rparr>]\<rparr> = (''p1'', None)"
    by (simp add: getPodName_def PodPending_def PodRunning_def)
qed

theorem getPodName_first_running_witness:
  "(\<exists>p \<in> set (Items \<lparr>Items = [\<lparr>Name = ''a'', Phase = ''Failed''\<rparr>,
                                  \<lparr>Name = ''b'', Phase = ''Running''\<rparr>,
                                  \<lparr>Name = ''c'', Phase = ''Running''\<rparr>]\<rparr>).
      Phase p = PodRunning) \<and>
   (\<exists>p. spec_first_running [\<lparr>Name = ''a'', Phase = ''Failed''\<rparr>,
                             \<lparr>Name = ''b'', Phase = ''Running''\<rparr>,
                             \<lparr>Name = ''c'', Phase = ''Running''\<rparr>] = Some p \<and>
        getPodName \<lparr>Items = [\<lparr>Name = ''a'', Phase = ''Failed''\<rparr>,
                              \<lparr>Name = ''b'', Phase = ''Running''\<rparr>,
                              \<lparr>Name = ''c'', Phase = ''Running''\<rparr>]\<rparr> = (Name p, None))"
proof -
  let ?pods = "\<lparr>Items = [\<lparr>Name = ''a'', Phase = ''Failed''\<rparr>,
                         \<lparr>Name = ''b'', Phase = ''Running''\<rparr>,
                         \<lparr>Name = ''c'', Phase = ''Running''\<rparr>]\<rparr>"
  have h: "\<exists>p \<in> set (Items ?pods). Phase p = PodRunning"
    by (simp add: PodRunning_def)
  have items: "Items ?pods = [\<lparr>Name = ''a'', Phase = ''Failed''\<rparr>,
                         \<lparr>Name = ''b'', Phase = ''Running''\<rparr>,
                         \<lparr>Name = ''c'', Phase = ''Running''\<rparr>]"
    by simp
  from getPodName_first_running [of ?pods] h
  have "\<exists>p. spec_first_running (Items ?pods) = Some p \<and>
            getPodName ?pods = (Name p, None)"
    by blast
  with h show ?thesis unfolding items by blast
qed

text \<open>
  Claim C3. \<open>getPodName\<close> returns a non-nil error exactly when its input holds no pod
  in phase Running (the empty input included); the error is then the one built from
  \<open>"no live pods behind the service"\<close>, the returned name is the empty string, and
  no pod of the input was chosen.
\<close>

theorem getPodName_error_iff:
  "(snd (getPodName pods) \<noteq> None \<longleftrightarrow>
      (Items pods = [] \<or> (\<forall>p \<in> set (Items pods). Phase p \<noteq> PodRunning))) \<and>
   (snd (getPodName pods) \<noteq> None \<longrightarrow>
      getPodName pods = ('''', Some (Errorf ''no live pods behind the service'')) \<and>
      spec_first_running (Items pods) = None)"
proof (cases "\<forall>p \<in> set (Items pods). Phase p \<noteq> PodRunning")
  case True
  then show ?thesis
    by (simp add: getPodName_def spec_first_running_def getPodName_loop_none
        find_running_none)
next
  case False
  then obtain before p after where split:
    "Items pods = before @ p # after" "Phase p = PodRunning"
    "\<forall>q \<in> set before. Phase q \<noteq> PodRunning"
    using split_list_first_prop [of "Items pods" "\<lambda>p. Phase p = PodRunning"] by blast
  then have "getPodName pods = (Name p, None)"
    unfolding getPodName_def by (simp add: getPodName_loop_skip)
  moreover have "Items pods \<noteq> []" using split by simp
  ultimately show ?thesis using False by simp
qed

theorem getPodName_error_iff_witness:
  "list_all (\<lambda>p. Phase p \<noteq> PodRunning)
      (Items \<lparr>Items = [\<lparr>Name = ''p0'', Phase = ''Pending''\<rparr>]\<rparr>) \<and>
   snd (getPodName \<lparr>Items = [\<lparr>Name = ''p0'', Phase = ''Pending''\<rparr>]\<rparr>) \<noteq> None \<and>
   getPodName \<lparr>Items = [\<lparr>Name = ''p0'', Phase = ''Pending''\<rparr>]\<rparr> =
     ('''', Some (Errorf ''no live pods behind the service''))"
proof -
  let ?pods = "\<lparr>Items = [\<lparr>Name = ''p0'', Phase = ''Pending''\<rparr>]\<rparr>"
  have h: "\<forall>p \<in> set (Items ?pods). Phase p \<noteq> PodRunning"
    by (simp add: PodRunning_def)
  with getPodName_error_iff [of ?pods] show ?thesis
    unfolding list_all_iff by blast
qed

section \<open>\<open>contains\<close>\<close>

text \<open>
  Claim C10. \<open>contains elems v\<close> is true exactly when some element of \<open>elems\<close>
  equals \<open>v\<close>; on the empty list it is false.
\<close>

theorem contains_iff_member:
  "(contains elems v \<longleftrightarrow> (\<exists>s \<in> set elems. s = v)) \<and> \<not> contains [] v"
  by (induction elems) auto

theorem contains_iff_member_witness:
  "contains [''a'', ''b''] ''b'' \<and> (\<exists>s \<in> set [''a'', ''b'']. s = ''b'') \<and>
   \<not> contains [''a'', ''b''] ''c''"
  using contains_iff_member [of "[''a'', ''b'']" "''b''"]
        contains_iff_member [of "[''a'', ''b'']" "''c''"]
  by simp

section \<open>\<open>convertToString\<close>\<close>

lemma convertToString_loop_strings:
  "\<forall>x \<in> set raw. is_string x \<Longrightarrow>
     convertToString_loop val raw = Inr (val @ map the_string raw)"
proof (induction raw arbitrary: val)
  case Nil
  then show ?case by simp
next
  case (Cons x raw)
  then obtain s where "x = IString s"
    by (cases x) (simp_all add: is_string_def)
  with Cons show ?case by (simp add: the_string_def)
qed

lemma convertToString_loop_panics:
  "\<exists>x \<in> set raw. \<not> is_string x \<Longrightarrow>
     convertToString_loop val raw = Inl TypeAssertionPanic"
proof (induction raw arbitrary: val)
  case Nil
  then show ?case by simp
next
  case (Cons x raw)
  show ?case
  proof (cases x)
    case (IString s)
    with Cons show ?thesis by (simp add: is_string_def)
  qed simp_all
qed

text \<open>
  Claim C9. On a list whose elements all have dynamic type string,
  \<open>convertToString\<close> returns the list of those strings: same length, same elements,
  same order. On a list with an element of any other dynamic type the type assertion
  panics, and nothing is returned.
\<close>

theorem convertToString_total_on_strings:
  "((\<forall>x \<in> set raw_list. is_string x) \<longrightarrow>
      (\<exists>val. convertToString raw_list = Inr val \<and>
             length val = length raw_list \<and>
             (\<forall>i < length raw_list. raw_list ! i = IString (val ! i)))) \<and>
   ((\<exists>x \<in> set raw_list. \<not> is_string x) \<longrightarrow>
      convertToString raw_list = Inl TypeAssertionPanic)"
proof (intro conjI impI)
  assume all: "\<forall>x \<in> set raw_list. is_string x"
  have "raw_list ! i = IString (map the_string raw_list ! i)" if "i < length raw_list" for i
  proof -
    from that all have "is_string (raw_list ! i)" by simp
    then obtain s where "raw_list ! i = IString s"
      by (cases "raw_list ! i") (simp_all add: is_string_def)
    with that show ?thesis by (simp add: the_string_def)
  qed
  with all show "\<exists>val. convertToString raw_list = Inr val \<and>
             length val = length raw_list \<and>
             (\<forall>i < length raw_list. raw_list ! i = IString (val ! i))"
    by (simp add: convertToString_def convertToString_loop_strings)
next
  assume "\<exists>x \<in> set raw_list. \<not> is_string x"
  then show "convertToString raw_list = Inl TypeAssertionPanic"
    by (simp add: convertToString_def convertToString_loop_panics)
qed

theorem convertToString_total_on_strings_witness:
  "list_all is_string [IString ''a'', IString ''b''] \<and>
   convertToString [IString ''a'', IString ''b''] = Inr [''a'', ''b''] \<and>
   (\<exists>x \<in> set [IString ''a'', IInt 7]. \<not> is_string x) \<and>
   convertToString [IString ''a'', IInt 7] = Inl TypeAssertionPanic"
proof -
  have h1: "\<forall>x \<in> set [IString ''a'', IString ''b'']. is_string x"
    by (simp add: is_string_def)
  have h2: "\<exists>x \<in> set [IString ''a'', IInt 7]. \<not> is_string x"
    by (simp add: is_string_def)
  have "convertToString [IString ''a'', IString ''b''] = Inr [''a'', ''b'']"
    by (simp add: convertToString_def)
  with h1 h2 convertToString_total_on_strings [of "[IString ''a'', IInt 7]"]
  show ?thesis unfolding list_all_iff by blast
qed

section \<open>Selector Builder\<close>

lemma spec_clause_nonempty: "spec_clause kv \<noteq> ''''"
  by (simp add: spec_clause_def)

lemma mapToSelectorStr_loop_joined:
  "mapToSelectorStr_loop selector msel =
     (if msel = [] then selector
      else (if selector \<noteq> '''' then selector @ '','' else selector) @
           spec_comma_joined (map spec_clause msel))"
proof (induction msel arbitrary: selector)
  case Nil
  show ?case by simp
next
  case (Cons kv msel)
  obtain k v where kv: "kv = (k, v)" by (cases kv)
  show ?case
  proof (cases msel)
    case Nil
    with kv show ?thesis by (simp add: spec_clause_def)
  next
    case (Cons kv' rest)
    with kv Cons.IH show ?thesis by (simp add: spec_clause_def)
  qed
qed

lemma count_comma_joined:
  "\<forall>c \<in> set cs. CHR '','' \<notin> set c \<Longrightarrow>
     count_list (spec_comma_joined cs) CHR '','' = length cs - 1"
proof (induction cs rule: spec_comma_joined.induct)
  case (3 c d cs)
  then show ?case by (simp add: count_list_0_iff)
qed (simp_all add: count_list_0_iff)

lemma hd_comma_joined:
  "cs \<noteq> [] \<Longrightarrow> hd cs \<noteq> '''' \<Longrightarrow> hd (spec_comma_joined cs) = hd (hd cs)"
  by (induction cs rule: spec_comma_joined.induct) simp_all

lemma last_comma_joined:
  "cs \<noteq> [] \<Longrightarrow> last cs \<noteq> '''' \<Longrightarrow> last (spec_comma_joined cs) = last (last cs)"
proof (induction cs rule: spec_comma_joined.induct)
  case (3 c d cs)
  have "spec_comma_joined (d # cs) \<noteq> ''''"
    using 3 by (cases cs) auto
  with 3 show ?case by simp
qed simp_all

text \<open>
  Claim C4. For a label mapping with \<open>N\<close> entries, visited by the loop in any order:
  when \<open>N = 0\<close> the result is the empty string; when \<open>N \<ge> 1\<close> the result is the
  \<open>N\<close> clauses \<open>key=value\<close>, one per entry and unescaped, joined by commas placed
  between consecutive clauses only (so \<open>N - 1\<close> of them, none leading and none
  trailing). Where no key and no value holds a comma itself, the result holds exactly
  \<open>N - 1\<close> comma characters and neither starts nor ends with one.
\<close>

theorem mapToSelectorStr_clauses:
  assumes "distinct (map fst msel)" and "N = card (dom (map_of msel))"
  shows "(N = 0 \<longrightarrow> mapToSelectorStr msel = '''') \<and>
         (N \<ge> 1 \<longrightarrow>
            length (map spec_clause msel) = N \<and>
            mapToSelectorStr msel = spec_comma_joined (map spec_clause msel) \<and>
            mapToSelectorStr msel \<noteq> '''' \<and>
            ((\<forall>kv \<in> set msel. CHR '','' \<notin> set (fst kv) \<and> CHR '','' \<notin> set (snd kv)) \<longrightarrow>
               count_list (mapToSelectorStr msel) CHR '','' = N - 1 \<and>
               hd (mapToSelectorStr msel) \<noteq> CHR '','' \<and>
               last (mapToSelectorStr msel) \<noteq> CHR '',''))"
proof -
  have N: "N = length msel"
    using assms distinct_card [of "map fst msel"]
    by (simp add: dom_map_of_conv_image_fst)
  have joined: "msel \<noteq> [] \<Longrightarrow>
      mapToSelectorStr msel = spec_comma_joined (map spec_clause msel)"
    by (simp add: mapToSelectorStr_def mapToSelectorStr_loop_joined)
  have nonempty: "spec_comma_joined (map spec_clause msel) \<noteq> ''''" if "msel \<noteq> []"
  proof -
    from that obtain kv rest where "msel = kv # rest" by (cases msel) auto
    then show ?thesis
      by (cases rest) (simp_all add: spec_clause_nonempty)
  qed
  have chars: "count_list (mapToSelectorStr msel) CHR '','' = N - 1 \<and>
               hd (mapToSelectorStr msel) \<noteq> CHR '','' \<and>
               last (mapToSelectorStr msel) \<noteq> CHR '',''"
    if ne: "msel \<noteq> []"
      and nc: "\<forall>kv \<in> set msel. CHR '','' \<notin> set (fst kv) \<and> CHR '','' \<notin> set (snd kv)"
  proof -
    have clause_nc: "\<forall>c \<in> set (map spec_clause msel). CHR '','' \<notin> set c"
      using nc by (auto simp: spec_clause_def)
    have cnt: "count_list (spec_comma_joined (map spec_clause msel)) CHR '','' = N - 1"
      using count_comma_joined [OF clause_nc] N by simp
    have "hd (map spec_clause msel) \<in> set (map spec_clause msel)"
      by (rule hd_in_set) (simp add: ne)
    then have "CHR '','' \<notin> set (hd (map spec_clause msel))"
      using clause_nc by blast
    moreover have "hd (map spec_clause msel) \<noteq> ''''"
      using ne by (simp add: hd_map spec_clause_nonempty)
    ultimately have h: "hd (spec_comma_joined (map spec_clause msel)) \<noteq> CHR '',''"
      using ne hd_comma_joined [of "map spec_clause msel"] by (metis hd_in_set map_is_Nil_conv)
    have "last (map spec_clause msel) \<in> set (map spec_clause msel)"
      by (rule last_in_set) (simp add: ne)
    then have "CHR '','' \<notin> set (last (map spec_clause msel))"
      using clause_nc by blast
    moreover have "last (map spec_clause msel) \<noteq> ''''"
      using ne by (simp add: last_map spec_clause_nonempty)
    ultimately have l: "last (spec_comma_joined (map spec_clause msel)) \<noteq> CHR '',''"
      using ne last_comma_joined [of "map spec_clause msel"]
      by (metis last_in_set map_is_Nil_conv)
    from cnt h l joined [OF ne] show ?thesis by simp
  qed
  show ?thesis
  proof (cases "msel = []")
    case True
    with N show ?thesis by (simp add: mapToSelectorStr_def)
  next
    case False
    with N have "N \<ge> 1" by (cases msel) simp_all
    with False N joined nonempty chars show ?thesis by simp
  qed
qed

theorem mapToSelectorStr_clauses_witness:
  "distinct (map fst [(''app'', ''cockroachdb''), (''tier'', ''db'')]) \<and>
   (2::nat) = card (dom (map_of [(''app'', ''cockroachdb''), (''tier'', ''db'')])) \<and>
   mapToSelectorStr [(''app'', ''cockroachdb''), (''tier'', ''db'')] =
     ''app=cockroachdb,tier=db'' \<and>
   count_list (mapToSelectorStr [(''app'', ''cockroachdb''), (''tier'', ''db'')]) CHR '','' = 1 \<and>
   mapToSelectorStr [] = ''''"
proof -
  let ?m = "[(''app'', ''cockroachdb''), (''tier'', ''db'')]"
  have d: "distinct (map fst ?m)" by simp
  have n: "(2::nat) = card (dom (map_of ?m))"
    by (simp add: dom_map_of_conv_image_fst)
  have nc: "\<forall>kv \<in> set ?m. CHR '','' \<notin> set (fst kv) \<and> CHR '','' \<notin> set (snd kv)"
    by simp
  have e: "(0::nat) = card (dom (map_of ([] :: (string \<times> string) list)))" by simp
  have one: "(2::nat) \<ge> 1" by simp
  from mapToSelectorStr_clauses [OF d n] nc one
  have "mapToSelectorStr ?m = spec_comma_joined (map spec_clause ?m) \<and>
        count_list (mapToSelectorStr ?m) CHR '','' = 2 - 1"
    by blast
  then have two: "mapToSelectorStr ?m = ''app=cockroachdb,tier=db''"
    and cnt: "count_list (mapToSelectorStr ?m) CHR '','' = 1"
    by (simp_all add: spec_clause_def)
  have zero: "mapToSelectorStr [] = ''''"
    using mapToSelectorStr_clauses [of "[]" 0] e by simp
  from d n two cnt zero show ?thesis by blast
qed

section \<open>The setup sequence and its runs\<close>

subsection \<open>Every body ends in an error branch or in the success line\<close>

lemma failing_shape_Cons [simp]:
  "is_quiet a \<Longrightarrow> failing_shape (a # t) = failing_shape t"
proof
  assume q: "is_quiet a" and "failing_shape (a # t)"
  then obtain pre m e where t: "a # t = pre @ [LogError m, SendErrCh e]"
    and pre: "list_all is_quiet pre"
    unfolding failing_shape_def by blast
  from q t obtain pre' where "pre = a # pre'" by (cases pre) auto
  with t pre show "failing_shape t" unfolding failing_shape_def by auto
next
  assume q: "is_quiet a" and "failing_shape t"
  then obtain pre m e where "t = pre @ [LogError m, SendErrCh e]" "list_all is_quiet pre"
    unfolding failing_shape_def by blast
  with q have "a # t = (a # pre) @ [LogError m, SendErrCh e] \<and> list_all is_quiet (a # pre)"
    by simp
  then show "failing_shape (a # t)" unfolding failing_shape_def by blast
qed

lemma success_shape_Cons [simp]:
  "is_quiet a \<Longrightarrow> success_shape (a # t) = success_shape t"
proof
  assume q: "is_quiet a" and "success_shape (a # t)"
  then obtain pre m where t: "a # t = pre @ [LogInfo m]"
    and pre: "list_all is_quiet pre"
    unfolding success_shape_def by blast
  from q t obtain pre' where "pre = a # pre'" by (cases pre) auto
  with t pre show "success_shape t" unfolding success_shape_def by auto
next
  assume q: "is_quiet a" and "success_shape t"
  then obtain pre m where "t = pre @ [LogInfo m]" "list_all is_quiet pre"
    unfolding success_shape_def by blast
  with q have "a # t = (a # pre) @ [LogInfo m] \<and> list_all is_quiet (a # pre)"
    by simp
  then show "success_shape (a # t)" unfolding success_shape_def by blast
qed

lemma shape_base [simp]:
  "failing_shape [LogError m, SendErrCh e]"
  "success_shape [LogInfo m]"
  unfolding failing_shape_def success_shape_def
  by (rule exI [of _ "[]"], simp)+

lemma after_ready_shape:
  "failing_shape (after_ready W conn localPort livePod) \<or>
   success_shape (after_ready W conn localPort livePod)"
  unfolding after_ready_def
  by (simp add: Let_def split: sum.splits)

subsection \<open>Every body fails early or reaches the wait for readiness\<close>

lemma early_failure_Cons [simp]:
  "is_early a \<Longrightarrow> early_failure (a # t) = early_failure t"
proof
  assume q: "is_early a" and "early_failure (a # t)"
  then obtain pre m e where t: "a # t = pre @ [LogError m, SendErrCh e]"
    and pre: "list_all is_early pre"
    unfolding early_failure_def by blast
  from q t obtain pre' where "pre = a # pre'" by (cases pre) auto
  with t pre show "early_failure t" unfolding early_failure_def by auto
next
  assume q: "is_early a" and "early_failure t"
  then obtain pre m e where "t = pre @ [LogError m, SendErrCh e]" "list_all is_early pre"
    unfolding early_failure_def by blast
  with q have "a # t = (a # pre) @ [LogError m, SendErrCh e] \<and> list_all is_early (a # pre)"
    by simp
  then show "early_failure (a # t)" unfolding early_failure_def by blast
qed

lemma early_failure_base [simp]: "early_failure [LogError m, SendErrCh e]"
  unfolding early_failure_def by (rule exI [of _ "[]"]) simp

lemma reaches_ready_Cons [simp]:
  "is_early a \<Longrightarrow> reaches_ready W conn lp (a # t) = reaches_ready W conn lp t"
proof
  assume q: "is_early a" and "reaches_ready W conn lp (a # t)"
  then obtain pre livePod where
    t: "a # t = pre @ GoForwardPorts # RecvReady # after_ready W conn lp livePod"
    and pre: "list_all is_early pre"
    unfolding reaches_ready_def by blast
  from q t obtain pre' where "pre = a # pre'" by (cases pre) auto
  with t pre show "reaches_ready W conn lp t" unfolding reaches_ready_def by auto
next
  assume q: "is_early a" and "reaches_ready W conn lp t"
  then obtain pre livePod where
    "t = pre @ GoForwardPorts # RecvReady # after_ready W conn lp livePod"
    "list_all is_early pre"
    unfolding reaches_ready_def by blast
  with q have "a # t = (a # pre) @ GoForwardPorts # RecvReady # after_ready W conn lp livePod \<and>
      list_all is_early (a # pre)"
    by simp
  then show "reaches_ready W conn lp (a # t)" unfolding reaches_ready_def by blast
qed

lemma reaches_ready_base [simp]:
  "reaches_ready W conn lp (GoForwardPorts # RecvReady # after_ready W conn lp livePod)"
  unfolding reaches_ready_def by (rule exI [of _ "[]"], rule exI [of _ livePod]) simp

lemma start_tunnel_cases:
  "early_failure (start_tunnel W cfg conn localPort livePod) \<or>
   reaches_ready W conn localPort (start_tunnel W cfg conn localPort livePod)"
  unfolding start_tunnel_def
  by (simp add: Let_def split: sum.splits)

lemma find_backend_cases:
  "early_failure (find_backend W cfg conn localPort) \<or>
   reaches_ready W conn localPort (find_backend W cfg conn localPort)"
  unfolding find_backend_def
  by (simp add: Let_def start_tunnel_cases split: sum.splits option.splits prod.splits)

subsection \<open>Steps and runs keep the invariants\<close>

lemma run_append: "run (xs @ ys) s = run ys (run xs s)"
  by (induction xs arbitrary: s) simp_all

lemma sends_append: "sends (xs @ ys) = sends xs @ sends ys"
  by (induction xs rule: sends.induct) simp_all

lemma sends_early: "list_all is_early xs \<Longrightarrow> sends xs = []"
  by (induction xs rule: sends.induct) simp_all

lemma setup_step_trace:
  "performed (setup_step s) @ todo (setup_step s) = performed s @ todo s"
  by (cases "todo s") (auto simp: advance_def split: action.splits)

lemma step_trace:
  "performed (step c s) @ todo (step c s) = performed s @ todo s"
  by (cases c) (simp_all add: setup_step_trace split: list.splits del: setup_step.simps)

lemma run_trace:
  "performed (run sched s) @ todo (run sched s) = performed s @ todo s"
  by (induction sched arbitrary: s) (simp_all add: step_trace del: step.simps)

lemma setup_step_chan_inv: "chan_inv s \<Longrightarrow> chan_inv (setup_step s)"
proof (cases "todo s")
  case Nil
  then show "chan_inv s \<Longrightarrow> chan_inv (setup_step s)" by simp
next
  case (Cons a rest)
  assume inv: "chan_inv s"
  have last: "a = CloseErrCh \<Longrightarrow> rest = []"
    using inv Cons unfolding chan_inv_def by (cases rest) auto
  have bl: "CloseErrCh \<notin> set (butlast rest)"
    using inv Cons unfolding chan_inv_def by (cases rest) auto
  show "chan_inv (setup_step s)"
    using inv Cons last bl unfolding chan_inv_def
    by (cases a) (auto simp: advance_def errCh_capacity_def)
qed

lemma step_chan_inv: "chan_inv s \<Longrightarrow> chan_inv (step c s)"
proof (cases c)
  case Setup
  assume "chan_inv s"
  then show ?thesis using Setup by (simp add: setup_step_chan_inv del: setup_step.simps)
next
  case SelectErr
  assume "chan_inv s"
  then show ?thesis using SelectErr unfolding chan_inv_def
    by (auto split: list.splits)
qed (auto simp: chan_inv_def)

lemma run_chan_inv: "chan_inv s \<Longrightarrow> chan_inv (run sched s)"
  by (induction sched arbitrary: s) (simp_all add: step_chan_inv del: step.simps)




lemma step_readyCh_mono: "readyCh s \<Longrightarrow> readyCh (step c s)"
  by (cases c; cases "todo s") (auto simp: advance_def split: action.splits list.splits)

lemma ready_guard_performed:
  "ready_guard s \<Longrightarrow> CallGetPorts \<in> set (performed s) \<Longrightarrow> readyCh s"
  unfolding ready_guard_def by blast

subsection \<open>What the two shapes give\<close>

lemma early_quiet: "is_early a \<Longrightarrow> is_quiet a"
  by (cases a) simp_all

lemma list_all_early_quiet: "list_all is_early xs \<Longrightarrow> list_all is_quiet xs"
  by (induction xs) (simp_all add: early_quiet)

lemma failing_shape_append:
  "list_all is_quiet pre \<Longrightarrow> failing_shape (pre @ t) = failing_shape t"
  by (induction pre) simp_all

lemma success_shape_append:
  "list_all is_quiet pre \<Longrightarrow> success_shape (pre @ t) = success_shape t"
  by (induction pre) simp_all

lemma early_failure_failing: "early_failure t \<Longrightarrow> failing_shape t"
  unfolding early_failure_def failing_shape_def
  using list_all_early_quiet by blast

lemma reaches_ready_shape:
  assumes "reaches_ready W conn lp t"
  shows "failing_shape t \<or> success_shape t"
proof -
  from assms obtain pre livePod where
    t: "t = pre @ GoForwardPorts # RecvReady # after_ready W conn lp livePod"
    and pre: "list_all is_early pre"
    unfolding reaches_ready_def by blast
  from pre have "list_all is_quiet pre" by (rule list_all_early_quiet)
  with t after_ready_shape [of W conn lp livePod] show ?thesis
    by (simp add: failing_shape_append success_shape_append)
qed

lemma find_backend_shapes:
  "failing_shape (find_backend W cfg conn lp) \<or> success_shape (find_backend W cfg conn lp)"
  using find_backend_cases [of W cfg conn lp] early_failure_failing reaches_ready_shape
  by blast

lemma quiet_facts:
  "list_all is_quiet pre \<Longrightarrow>
     sends (pre @ xs) = sends xs \<and>
     send_then_close (pre @ xs) = send_then_close xs \<and>
     (CloseErrCh \<in> set (pre @ xs)) = (CloseErrCh \<in> set xs) \<and>
     (\<exists>a \<in> set (pre @ xs). is_success_log a) = (\<exists>a \<in> set xs. is_success_log a)"
proof (induction pre)
  case Nil
  show ?case by simp
next
  case (Cons a pre)
  then show ?case by (cases a) simp_all
qed

lemma failing_shape_facts:
  assumes "failing_shape t"
  shows "\<exists>pre e. t @ [CloseErrCh] = pre @ [SendErrCh e, CloseErrCh] \<and> sends pre = [] \<and>
           sends (t @ [CloseErrCh]) = [e]"
    and "send_then_close (t @ [CloseErrCh])"
    and "CloseErrCh \<notin> set t"
    and "\<not> (\<exists>a \<in> set (t @ [CloseErrCh]). is_success_log a)"
proof -
  from assms obtain pre m e where t: "t = pre @ [LogError m, SendErrCh e]"
    and pre: "list_all is_quiet pre"
    unfolding failing_shape_def by blast
  have eq: "t @ [CloseErrCh] = pre @ [LogError m, SendErrCh e, CloseErrCh]"
    using t by simp
  have "t @ [CloseErrCh] = (pre @ [LogError m]) @ [SendErrCh e, CloseErrCh]"
    using t by simp
  moreover have "sends (pre @ [LogError m]) = []"
    using quiet_facts [OF pre, of "[LogError m]"] by simp
  moreover have "sends (t @ [CloseErrCh]) = [e]"
    unfolding eq using quiet_facts [OF pre, of "[LogError m, SendErrCh e, CloseErrCh]"] by simp
  ultimately show "\<exists>pre e. t @ [CloseErrCh] = pre @ [SendErrCh e, CloseErrCh] \<and> sends pre = [] \<and>
           sends (t @ [CloseErrCh]) = [e]"
    by blast
  show "send_then_close (t @ [CloseErrCh])"
    unfolding eq using quiet_facts [OF pre, of "[LogError m, SendErrCh e, CloseErrCh]"] by simp
  show "CloseErrCh \<notin> set t"
    unfolding t using quiet_facts [OF pre, of "[LogError m, SendErrCh e]"] by simp
  show "\<not> (\<exists>a \<in> set (t @ [CloseErrCh]). is_success_log a)"
    unfolding eq using quiet_facts [OF pre, of "[LogError m, SendErrCh e, CloseErrCh]"] by simp
qed

lemma success_shape_facts:
  assumes "success_shape t"
  shows "sends (t @ [CloseErrCh]) = []"
    and "send_then_close (t @ [CloseErrCh])"
    and "CloseErrCh \<notin> set t"
    and "\<exists>a \<in> set (t @ [CloseErrCh]). is_success_log a"
proof -
  from assms obtain pre m where t: "t = pre @ [LogInfo m]"
    and pre: "list_all is_quiet pre"
    unfolding success_shape_def by blast
  have eq: "t @ [CloseErrCh] = pre @ [LogInfo m, CloseErrCh]"
    using t by simp
  show "sends (t @ [CloseErrCh]) = []"
    unfolding eq using quiet_facts [OF pre, of "[LogInfo m, CloseErrCh]"] by simp
  show "send_then_close (t @ [CloseErrCh])"
    unfolding eq using quiet_facts [OF pre, of "[LogInfo m, CloseErrCh]"] by simp
  show "CloseErrCh \<notin> set t"
    unfolding t using quiet_facts [OF pre, of "[LogInfo m]"] by simp
  show "\<exists>a \<in> set (t @ [CloseErrCh]). is_success_log a"
    unfolding eq using quiet_facts [OF pre, of "[LogInfo m, CloseErrCh]"] by simp
qed

subsection \<open>The send stays the last action but one\<close>

lemma send_then_close_tl:
  "send_then_close (a # rest) \<Longrightarrow> send_then_close rest"
  by (cases a) simp_all

lemma setup_step_send_then_close:
  "send_then_close (todo s) \<Longrightarrow> send_then_close (todo (setup_step s))"
proof (cases "todo s")
  case Nil
  then show "send_then_close (todo s) \<Longrightarrow> send_then_close (todo (setup_step s))" by simp
next
  case (Cons a rest)
  assume "send_then_close (todo s)"
  with Cons have "send_then_close rest" using send_then_close_tl by simp
  with Cons \<open>send_then_close (todo s)\<close> show "send_then_close (todo (setup_step s))"
    by (cases a) (auto simp: advance_def)
qed

lemma step_send_then_close:
  "send_then_close (todo s) \<Longrightarrow> send_then_close (todo (step c s))"
proof (cases c)
  case Setup
  assume "send_then_close (todo s)"
  then show ?thesis using Setup
    by (simp add: setup_step_send_then_close del: setup_step.simps)
qed (auto split: list.splits)

lemma run_send_then_close:
  "send_then_close (todo s) \<Longrightarrow> send_then_close (todo (run sched s))"
  by (induction sched arbitrary: s) (simp_all add: step_send_then_close del: step.simps)

subsection \<open>The forwarding loop and the idle state\<close>

lemma setup_step_fwd_inv: "fwd_inv s \<Longrightarrow> fwd_inv (setup_step s)"
  by (cases "todo s") (auto simp: fwd_inv_def advance_def split: action.splits)

lemma step_fwd_inv: "fwd_inv s \<Longrightarrow> fwd_inv (step c s)"
proof (cases c)
  case Setup
  assume "fwd_inv s"
  then show ?thesis using Setup by (simp add: setup_step_fwd_inv del: setup_step.simps)
qed (auto simp: fwd_inv_def split: list.splits)

lemma run_fwd_inv: "fwd_inv s \<Longrightarrow> fwd_inv (run sched s)"
  by (induction sched arbitrary: s) (simp_all add: step_fwd_inv del: step.simps)

lemma step_idle:
  "todo s = [] \<Longrightarrow> watcher s \<noteq> Waiting \<Longrightarrow> \<not> forwarding s \<Longrightarrow> result s \<noteq> None \<Longrightarrow>
     step c s = s"
  by (cases c) auto

lemma run_idle:
  "todo s = [] \<Longrightarrow> watcher s \<noteq> Waiting \<Longrightarrow> \<not> forwarding s \<Longrightarrow> result s \<noteq> None \<Longrightarrow>
     run sched s = s"
  by (induction sched) (simp_all add: step_idle del: step.simps)

text \<open>
  Claim C7. With a nil \<open>kubeConfig\<close> the call has returned nil diagnostics at once:
  the setup goroutine and the interrupt watcher were never started, no collaborator
  was called and nothing was logged, the caller's \<open>stopCh\<close> and \<open>readyCh\<close> are as
  they were passed in, and no scheduling of any path changes anything afterwards.
\<close>

theorem nil_config_noop:
  assumes "kubeConfig (kubeConn meta) = None"
  shows "result (tryPortForwardIfNeeded meta W stopClosed readyClosed localPort) = Some NilDiags \<and>
         performed (tryPortForwardIfNeeded meta W stopClosed readyClosed localPort) = [] \<and>
         todo (tryPortForwardIfNeeded meta W stopClosed readyClosed localPort) = [] \<and>
         others (tryPortForwardIfNeeded meta W stopClosed readyClosed localPort) = [] \<and>
         watcher (tryPortForwardIfNeeded meta W stopClosed readyClosed localPort) = Unspawned \<and>
         \<not> forwarding (tryPortForwardIfNeeded meta W stopClosed readyClosed localPort) \<and>
         \<not> panicked (tryPortForwardIfNeeded meta W stopClosed readyClosed localPort) \<and>
         stopCh (tryPortForwardIfNeeded meta W stopClosed readyClosed localPort) = stopClosed \<and>
         readyCh (tryPortForwardIfNeeded meta W stopClosed readyClosed localPort) = readyClosed \<and>
         run sched (tryPortForwardIfNeeded meta W stopClosed readyClosed localPort) =
           tryPortForwardIfNeeded meta W stopClosed readyClosed localPort"
proof -
  let ?s = "tryPortForwardIfNeeded meta W stopClosed readyClosed localPort"
  have s: "?s = \<lparr>stopCh = stopClosed, readyCh = readyClosed, errCh = [], errChClosed = False,
           watcher = Unspawned, todo = [], performed = [], others = [],
           forwarding = False, result = Some NilDiags, panicked = False\<rparr>"
    using assms by (simp add: tryPortForwardIfNeeded_def)
  have "run sched ?s = ?s"
    by (rule run_idle) (simp_all add: s)
  then show ?thesis by (simp add: s)
qed

subsection \<open>The state at the \<open>select\<close>\<close>

lemma initial_state:
  assumes "kubeConfig (kubeConn meta) = Some cfg"
  shows "tryPortForwardIfNeeded meta W stopClosed readyClosed localPort =
          \<lparr>stopCh = stopClosed, readyCh = readyClosed, errCh = [], errChClosed = False,
           watcher = Waiting,
           todo = setup_sequence W cfg (kubeConn meta) localPort,
           performed = [], others = [], forwarding = False, result = None,
           panicked = False\<rparr>"
  using assms by (simp add: tryPortForwardIfNeeded_def)

lemma setup_sequence_facts:
  "length (sends (setup_sequence W cfg conn lp)) \<le> 1"
  "send_then_close (setup_sequence W cfg conn lp)"
  "CloseErrCh \<notin> set (find_backend W cfg conn lp)"
  "(\<exists>a \<in> set (setup_sequence W cfg conn lp). is_success_log a) =
     (sends (setup_sequence W cfg conn lp) = [])"
  "sends (setup_sequence W cfg conn lp) \<noteq> [] \<longrightarrow>
     (\<exists>pre e. setup_sequence W cfg conn lp = pre @ [SendErrCh e, CloseErrCh] \<and> sends pre = [])"
proof -
  let ?fb = "find_backend W cfg conn lp"
  consider (f) "failing_shape ?fb" | (s) "success_shape ?fb"
    using find_backend_shapes by blast
  then have "length (sends (setup_sequence W cfg conn lp)) \<le> 1 \<and>
     send_then_close (setup_sequence W cfg conn lp) \<and>
     CloseErrCh \<notin> set (find_backend W cfg conn lp) \<and>
     ((\<exists>a \<in> set (setup_sequence W cfg conn lp). is_success_log a) =
        (sends (setup_sequence W cfg conn lp) = [])) \<and>
     (sends (setup_sequence W cfg conn lp) \<noteq> [] \<longrightarrow>
       (\<exists>pre e. setup_sequence W cfg conn lp = pre @ [SendErrCh e, CloseErrCh] \<and> sends pre = []))"
  proof cases
    case f
    from failing_shape_facts [OF f] show ?thesis
      unfolding setup_sequence_def by (metis le_refl length_Cons list.size(3) One_nat_def not_Cons_self2)
  next
    case s
    from success_shape_facts [OF s] show ?thesis
      unfolding setup_sequence_def by simp
  qed
  then show "length (sends (setup_sequence W cfg conn lp)) \<le> 1"
  "send_then_close (setup_sequence W cfg conn lp)"
  "CloseErrCh \<notin> set (find_backend W cfg conn lp)"
  "(\<exists>a \<in> set (setup_sequence W cfg conn lp). is_success_log a) =
     (sends (setup_sequence W cfg conn lp) = [])"
  "sends (setup_sequence W cfg conn lp) \<noteq> [] \<longrightarrow>
     (\<exists>pre e. setup_sequence W cfg conn lp = pre @ [SendErrCh e, CloseErrCh] \<and> sends pre = [])"
    by blast+
qed

lemma initial_chan_inv:
  assumes "kubeConfig (kubeConn meta) = Some cfg"
  shows "chan_inv (tryPortForwardIfNeeded meta W stopClosed readyClosed localPort)"
  unfolding chan_inv_def initial_state [OF assms]
  using setup_sequence_facts(1,3) [of W cfg "kubeConn meta" localPort]
  by (simp add: setup_sequence_def)

text \<open>
  Claim C8. The setup sequence sends at most one error on \<open>errCh\<close>. A send is the
  last action before the deferred close, so the goroutine ends right after it; the
  sequence sends no error exactly when it reaches the success line, so every failing
  execution sends exactly one. In every run, under every schedule, the goroutine has
  sent and has yet to send at most one error together, the buffer never exceeds its
  capacity of one, and whenever the send is the next action the buffer is empty and the
  channel open, so the send goes through without blocking.
\<close>

theorem errCh_single_send:
  assumes cfg: "kubeConfig (kubeConn meta) = Some cfg"
  shows "length (sends (setup_sequence W cfg (kubeConn meta) localPort)) \<le> 1 \<and>
    (sends (setup_sequence W cfg (kubeConn meta) localPort) \<noteq> [] \<longrightarrow>
       (\<exists>pre e. setup_sequence W cfg (kubeConn meta) localPort =
                  pre @ [SendErrCh e, CloseErrCh] \<and> sends pre = [])) \<and>
    ((\<exists>a \<in> set (setup_sequence W cfg (kubeConn meta) localPort). is_success_log a) =
       (sends (setup_sequence W cfg (kubeConn meta) localPort) = [])) \<and>
    (let s = run sched (tryPortForwardIfNeeded meta W stopClosed readyClosed localPort) in
       length (sends (performed s)) + length (sends (todo s)) \<le> 1 \<and>
       length (errCh s) \<le> errCh_capacity \<and>
       (\<forall>e rest. todo s = SendErrCh e # rest \<longrightarrow>
          errCh s = [] \<and> \<not> errChClosed s \<and> rest = [CloseErrCh] \<and>
          (\<not> panicked s \<longrightarrow>
             errCh (step Setup s) = [e] \<and> todo (step Setup s) = rest \<and>
             performed (step Setup s) = performed s @ [SendErrCh e])))"
proof -
  let ?t = "setup_sequence W cfg (kubeConn meta) localPort"
  let ?init = "tryPortForwardIfNeeded meta W stopClosed readyClosed localPort"
  let ?s = "run sched ?init"
  have inv: "chan_inv ?s"
    by (rule run_chan_inv) (rule initial_chan_inv [OF cfg])
  have stc: "send_then_close (todo ?s)"
    by (rule run_send_then_close) (simp add: initial_state [OF cfg] setup_sequence_facts(2))
  have "performed ?init @ todo ?init = ?t"
    by (simp add: initial_state [OF cfg])
  with run_trace [of sched ?init] have tr: "performed ?s @ todo ?s = ?t"
    by (rule trans)
  have "sends (performed ?s) @ sends (todo ?s) = sends ?t"
    using tr sends_append [of "performed ?s" "todo ?s"] by simp
  then have "length (sends (performed ?s)) + length (sends (todo ?s)) = length (sends ?t)"
    by (metis length_append)
  then have cnt: "length (sends (performed ?s)) + length (sends (todo ?s)) \<le> 1"
    using setup_sequence_facts(1) [of W cfg "kubeConn meta" localPort] by simp
  have cap: "length (errCh ?s) \<le> errCh_capacity"
    using inv unfolding chan_inv_def errCh_capacity_def by simp
  have snd: "errCh ?s = [] \<and> \<not> errChClosed ?s \<and> rest = [CloseErrCh] \<and>
          (\<not> panicked ?s \<longrightarrow>
             errCh (step Setup ?s) = [e] \<and> todo (step Setup ?s) = rest \<and>
             performed (step Setup ?s) = performed ?s @ [SendErrCh e])"
    if td: "todo ?s = SendErrCh e # rest" for e rest
  proof -
    from inv td have e: "errCh ?s = []" and c: "\<not> errChClosed ?s"
      unfolding chan_inv_def by auto
    from stc td have r: "rest = [CloseErrCh]" by simp
    from e c r td show ?thesis
      by (simp add: advance_def errCh_capacity_def)
  qed
  from cnt cap snd setup_sequence_facts(1,4,5) [of W cfg "kubeConn meta" localPort]
  show ?thesis unfolding Let_def by blast
qed

subsection \<open>The port check\<close>

lemma early_not:
  assumes "list_all is_early pre"
  shows "CallGetPorts \<notin> set pre" "RecvReady \<notin> set pre" "GoForwardPorts \<notin> set pre"
    "sends pre = []" "\<not> (\<exists>a \<in> set pre. is_success_log a)"
proof -
  have e: "is_early a" if "a \<in> set pre" for a
    using assms that by (simp add: list_all_iff)
  show "CallGetPorts \<notin> set pre" using e by fastforce
  show "RecvReady \<notin> set pre" using e by fastforce
  show "GoForwardPorts \<notin> set pre" using e by fastforce
  show "sends pre = []" using assms by (rule sends_early)
  show "\<not> (\<exists>a \<in> set pre. is_success_log a)"
  proof
    assume "\<exists>a \<in> set pre. is_success_log a"
    then obtain a where "a \<in> set pre" "is_success_log a" by blast
    with e [of a] show False by (cases a) simp_all
  qed
qed







subsection \<open>The scenarios evaluated\<close>

lemma itoa_2: "itoa 2 = ''2''"
  by (simp add: itoa.simps [of 2] digit_def)

lemma itoa_Suc_Suc_0: "itoa (Suc (Suc 0)) = ''2''"
  using itoa_2 by (simp add: numeral_2_eq_2)

lemma scenario_D_sequence:
  "setup_sequence scenario_D scenario_config (kubeConn (scenario_client (Some scenario_config)))
     ''8080'' =
   [CallServicesGet ''db'' ''crdb'',
    CallPodsList ''db'' ''app=cockroachdb'',
    CallUrlParse ''https://kube/api/v1/namespaces/db/pods/p1/portforward'',
    CallRoundTripperFor,
    CallNewOnAddresses ''https://kube/api/v1/namespaces/db/pods/p1/portforward''
      [''127.0.0.1''] [''8080:26257''],
    GoForwardPorts, RecvReady, CallGetPorts,
    LogError ''unexpected number of forwarded ports: got 2, expected 1'',
    SendErrCh (Errorf ''unexpected number of forwarded ports: got 2, expected 1''),
    CloseErrCh]"
  by (simp add: setup_sequence_def find_backend_def start_tunnel_def after_ready_def
      scenario_D_def scenario_world_def scenario_client_def scenario_config_def
      scenario_pods_def mapToSelectorStr_def getPodName_def PodRunning_def PodPending_def
      itoa_Suc_Suc_0 Let_def)

lemma scenario_B_sequence:
  "setup_sequence scenario_B scenario_config (kubeConn (scenario_client (Some scenario_config)))
     ''8080'' =
   [CallServicesGet ''db'' ''crdb'',
    LogError ''failed to get service selector: service crdb has no selector'',
    SendErrCh (Errorf ''service crdb has no selector''),
    CloseErrCh]"
  by (simp add: setup_sequence_def find_backend_def
      scenario_B_def scenario_world_def scenario_client_def scenario_config_def
      mapToSelectorStr_def Let_def)

lemma scenario_cfg:
  "kubeConfig (kubeConn (scenario_client (Some scenario_config))) = Some scenario_config"
  "kubeConfig (kubeConn (scenario_client None)) = None"
  by (simp_all add: scenario_client_def)


section \<open>Empty selector\<close>

lemma initial_fwd_inv:
  "fwd_inv (tryPortForwardIfNeeded meta W stopClosed readyClosed localPort)"
  by (simp add: fwd_inv_def tryPortForwardIfNeeded_def split: option.splits)

text \<open>
  Claim C5. When the resolved service has an empty selector mapping, the selector
  string is empty and the setup sequence is: the service lookup, the error log, the
  send of the \<open>"service ... has no selector"\<close> error on \<open>errCh\<close>, the deferred close.
  In every run that error is the only one sent, the service lookup is the only
  collaborator call ever performed (no pod listing, no backend pick, no tunnel
  creation) and the forwarding loop is never launched.
\<close>

theorem empty_selector_aborts:
  assumes cfg: "kubeConfig (kubeConn meta) = Some cfg"
    and svc: "ServicesGet W (nameSpace (kubeConn meta)) (serviceName (kubeConn meta)) = Inr svc"
    and empty: "Selector svc = []"
  shows "mapToSelectorStr (Selector svc) = '''' \<and>
     setup_sequence W cfg (kubeConn meta) localPort =
       [CallServicesGet (nameSpace (kubeConn meta)) (serviceName (kubeConn meta)),
        LogError (''failed to get service selector: service '' @ serviceName (kubeConn meta) @
                  '' has no selector''),
        SendErrCh (Errorf (''service '' @ serviceName (kubeConn meta) @ '' has no selector'')),
        CloseErrCh] \<and>
     (let s = run sched (tryPortForwardIfNeeded meta W stopClosed readyClosed localPort) in
        sends (performed s) @ sends (todo s) =
          [Errorf (''service '' @ serviceName (kubeConn meta) @ '' has no selector'')] \<and>
        (\<forall>a \<in> set (performed s).
           is_call a \<longrightarrow>
           a = CallServicesGet (nameSpace (kubeConn meta)) (serviceName (kubeConn meta))) \<and>
        \<not> forwarding s)"
proof -
  let ?t = "setup_sequence W cfg (kubeConn meta) localPort"
  let ?init = "tryPortForwardIfNeeded meta W stopClosed readyClosed localPort"
  let ?s = "run sched ?init"
  have sel: "mapToSelectorStr (Selector svc) = ''''"
    using empty by (simp add: mapToSelectorStr_def)
  have t: "?t =
       [CallServicesGet (nameSpace (kubeConn meta)) (serviceName (kubeConn meta)),
        LogError (''failed to get service selector: service '' @ serviceName (kubeConn meta) @
                  '' has no selector''),
        SendErrCh (Errorf (''service '' @ serviceName (kubeConn meta) @ '' has no selector'')),
        CloseErrCh]"
    using svc sel by (simp add: setup_sequence_def find_backend_def Let_def)
  have "performed ?init @ todo ?init = ?t"
    by (simp add: initial_state [OF cfg])
  with run_trace [of sched ?init] have tr: "performed ?s @ todo ?s = ?t"
    by (rule trans)
  have "sends (performed ?s) @ sends (todo ?s) = sends ?t"
    using tr sends_append [of "performed ?s" "todo ?s"] by simp
  then have snd: "sends (performed ?s) @ sends (todo ?s) =
      [Errorf (''service '' @ serviceName (kubeConn meta) @ '' has no selector'')]"
    unfolding t by simp
  have sub: "set (performed ?s) \<subseteq> set ?t"
    using tr by (metis set_append Un_upper1)
  have calls: "\<forall>a \<in> set (performed ?s).
           is_call a \<longrightarrow>
           a = CallServicesGet (nameSpace (kubeConn meta)) (serviceName (kubeConn meta))"
    using sub unfolding t by auto
  have "fwd_inv ?s" by (rule run_fwd_inv) (rule initial_fwd_inv)
  then have "forwarding ?s \<longrightarrow> GoForwardPorts \<in> set ?t"
    using sub unfolding fwd_inv_def by blast
  then have nf: "\<not> forwarding ?s" unfolding t by simp
  from sel t snd calls nf show ?thesis unfolding Let_def by blast
qed

section \<open>Failures before the forwarding loop is launched\<close>

text \<open>
  When the sequence fails before line 114 and the caller passed an open \<open>readyCh\<close>,
  the only value the call can return is the diagnostic of the one error sent, and from
  every state without a panic the goroutine can finish and the \<open>select\<close> can take it.
\<close>

lemma setup_step_report_inv:
  assumes "report_inv e s"
  shows "report_inv e (setup_step s)"
proof (cases "todo s")
  case Nil
  with assms show ?thesis by simp
next
  case (Cons a rest)
  have ci: "chan_inv (setup_step s)"
    using assms setup_step_chan_inv unfolding report_inv_def by blast
  from assms Cons have base: "\<not> readyCh s" "\<not> forwarding s" "a \<noteq> GoForwardPorts"
    "a \<noteq> RecvReady" "GoForwardPorts \<notin> set rest" "RecvReady \<notin> set rest"
    unfolding report_inv_def by auto
  from assms Cons have send: "a = SendErrCh x \<Longrightarrow> errCh s = [] \<and> \<not> errChClosed s" for x
    unfolding report_inv_def chan_inv_def by auto
  from assms have res: "case result s of
         None \<Rightarrow> errCh s @ sends (todo s) = [e]
       | Some r \<Rightarrow> r = FromErr (Some e)"
    unfolding report_inv_def by blast
  have "\<not> readyCh (setup_step s) \<and> \<not> forwarding (setup_step s) \<and>
      GoForwardPorts \<notin> set (todo (setup_step s)) \<and> RecvReady \<notin> set (todo (setup_step s)) \<and>
      (case result (setup_step s) of
         None \<Rightarrow> errCh (setup_step s) @ sends (todo (setup_step s)) = [e]
       | Some r \<Rightarrow> r = FromErr (Some e))"
    using Cons base send res
    by (cases a) (auto simp: advance_def errCh_capacity_def split: option.splits)
  with ci show ?thesis unfolding report_inv_def by blast
qed

lemma step_report_inv:
  assumes "report_inv e s"
  shows "report_inv e (step c s)"
proof (cases c)
  case Setup
  then show ?thesis using assms
    by (simp add: setup_step_report_inv del: setup_step.simps)
next
  case Forwarder
  then show ?thesis using assms by (auto simp: report_inv_def)
next
  case Signal
  then show ?thesis using assms by (auto simp: report_inv_def chan_inv_def)
next
  case SelectReady
  then show ?thesis using assms by (auto simp: report_inv_def)
next
  case SelectErr
  have ci: "chan_inv (step c s)" using assms step_chan_inv unfolding report_inv_def by blast
  from assms have "errCh s = [] \<Longrightarrow> errChClosed s \<Longrightarrow> result s \<noteq> None"
    unfolding report_inv_def chan_inv_def by (auto split: option.splits)
  then have "\<not> readyCh (step c s) \<and> \<not> forwarding (step c s) \<and>
      GoForwardPorts \<notin> set (todo (step c s)) \<and> RecvReady \<notin> set (todo (step c s)) \<and>
      (case result (step c s) of
         None \<Rightarrow> errCh (step c s) @ sends (todo (step c s)) = [e]
       | Some r \<Rightarrow> r = FromErr (Some e))"
    using assms SelectErr unfolding report_inv_def
    by (auto split: list.splits option.splits)
  with ci show ?thesis unfolding report_inv_def by blast
qed

lemma run_report_inv: "report_inv e s \<Longrightarrow> report_inv e (run sched s)"
  by (induction sched arbitrary: s) (simp_all add: step_report_inv del: step.simps)

lemma setup_step_progress:
  assumes "report_inv e s" and "\<not> panicked s" and "todo s = a # rest"
  shows "todo (step Setup s) = rest \<and> \<not> panicked (step Setup s) \<and>
         result (step Setup s) = result s"
proof -
  from assms have "a \<noteq> RecvReady" unfolding report_inv_def by auto
  moreover from assms have "a = SendErrCh x \<Longrightarrow> errCh s = [] \<and> \<not> errChClosed s" for x
    unfolding report_inv_def chan_inv_def by auto
  moreover from assms have "\<not> errChClosed s"
    unfolding report_inv_def chan_inv_def by auto
  ultimately show ?thesis using assms(2,3)
    by (cases a) (auto simp: advance_def errCh_capacity_def)
qed

lemma drain_setup:
  "report_inv e s \<Longrightarrow> \<not> panicked s \<Longrightarrow> length (todo s) = n \<Longrightarrow>
     todo (run (replicate n Setup) s) = [] \<and> \<not> panicked (run (replicate n Setup) s) \<and>
     result (run (replicate n Setup) s) = result s \<and>
     report_inv e (run (replicate n Setup) s)"
proof (induction n arbitrary: s)
  case 0
  then show ?case by simp
next
  case (Suc n)
  then obtain a rest where td: "todo s = a # rest" by (cases "todo s") auto
  note p = setup_step_progress [OF Suc.prems(1,2) td]
  have inv: "report_inv e (step Setup s)" using Suc.prems(1) by (rule step_report_inv)
  have len: "length (todo (step Setup s)) = n" using p td Suc.prems(3) by simp
  from Suc.IH [OF inv _ len] p show ?case by (simp del: step.simps)
qed

lemma select_err_delivers:
  assumes "report_inv e s" and "\<not> panicked s" and "todo s = []"
  shows "result (step SelectErr s) = Some (FromErr (Some e))"
  using assms unfolding report_inv_def
  by (auto split: option.splits list.splits)

lemma early_failure_reported:
  assumes cfg: "kubeConfig (kubeConn meta) = Some cfg"
    and early: "early_failure (find_backend W cfg (kubeConn meta) localPort)"
  shows "\<exists>e. sends (setup_sequence W cfg (kubeConn meta) localPort) = [e] \<and>
    (\<forall>sched.
       (result (run sched (tryPortForwardIfNeeded meta W stopClosed False localPort)) = None \<or>
        result (run sched (tryPortForwardIfNeeded meta W stopClosed False localPort)) =
          Some (FromErr (Some e))) \<and>
       (\<not> panicked (run sched (tryPortForwardIfNeeded meta W stopClosed False localPort)) \<longrightarrow>
          (\<exists>more. result (run (sched @ more)
                      (tryPortForwardIfNeeded meta W stopClosed False localPort)) =
                   Some (FromErr (Some e)))))"
proof -
  let ?t = "setup_sequence W cfg (kubeConn meta) localPort"
  let ?init = "tryPortForwardIfNeeded meta W stopClosed False localPort"
  from early obtain pre m e where fb: "find_backend W cfg (kubeConn meta) localPort =
      pre @ [LogError m, SendErrCh e]" and pre: "list_all is_early pre"
    unfolding early_failure_def by blast
  have t: "?t = pre @ [LogError m, SendErrCh e, CloseErrCh]"
    unfolding setup_sequence_def fb by simp
  note en = early_not [OF pre]
  have snd: "sends ?t = [e]" unfolding t using en(4) by (simp add: sends_append)
  have init: "report_inv e ?init"
    unfolding report_inv_def
    using initial_chan_inv [OF cfg, of W stopClosed False localPort] snd en(2,3)
    by (simp add: initial_state [OF cfg] t)
  have main: "(result (run sched ?init) = None \<or>
        result (run sched ?init) = Some (FromErr (Some e))) \<and>
       (\<not> panicked (run sched ?init) \<longrightarrow>
          (\<exists>more. result (run (sched @ more) ?init) = Some (FromErr (Some e))))" for sched
  proof -
    let ?s = "run sched ?init"
    have inv: "report_inv e ?s" using init by (rule run_report_inv)
    then have r: "result ?s = None \<or> result ?s = Some (FromErr (Some e))"
      unfolding report_inv_def by (auto split: option.splits)
    have live: "\<exists>more. result (run (sched @ more) ?init) = Some (FromErr (Some e))"
      if np: "\<not> panicked ?s"
    proof -
      let ?n = "length (todo ?s)"
      let ?s' = "run (replicate ?n Setup) ?s"
      from drain_setup [OF inv np refl]
      have d: "todo ?s' = []" "\<not> panicked ?s'" "report_inv e ?s'" by blast+
      from select_err_delivers [OF d(3) d(2) d(1)]
      have "result (run (sched @ replicate ?n Setup @ [SelectErr]) ?init) =
          Some (FromErr (Some e))"
        by (simp add: run_append del: step.simps)
      then show ?thesis by blast
    qed
    from r live show ?thesis by blast
  qed
  from snd main show ?thesis by blast
qed

section \<open>The theorems on the scenarios\<close>

theorem empty_selector_aborts_witness:
  "kubeConfig (kubeConn (scenario_client (Some scenario_config))) = Some scenario_config \<and>
   Selector \<lparr>Namespace = ''db'', Selector = []\<rparr> = [] \<and>
   setup_sequence scenario_B scenario_config (kubeConn (scenario_client (Some scenario_config)))
     ''8080'' =
     [CallServicesGet ''db'' ''crdb'',
      LogError ''failed to get service selector: service crdb has no selector'',
      SendErrCh (Errorf ''service crdb has no selector''),
      CloseErrCh] \<and>
   \<not> forwarding (run [Setup, Forwarder, Setup, Setup, SelectErr, Setup]
        (tryPortForwardIfNeeded (scenario_client (Some scenario_config)) scenario_B
           False False ''8080''))"
proof -
  let ?meta = "scenario_client (Some scenario_config)"
  let ?svc = "\<lparr>Namespace = ''db'', Selector = []\<rparr>"
  have svc: "ServicesGet scenario_B (nameSpace (kubeConn ?meta)) (serviceName (kubeConn ?meta)) =
      Inr ?svc"
    by (simp add: scenario_B_def scenario_world_def scenario_client_def)
  have empty: "Selector ?svc = []" by simp
  have names: "nameSpace (kubeConn ?meta) = ''db''" "serviceName (kubeConn ?meta) = ''crdb''"
    by (simp_all add: scenario_client_def)
  from empty_selector_aborts [OF scenario_cfg(1) svc empty,
      of "''8080''" "[Setup, Forwarder, Setup, Setup, SelectErr, Setup]" False False]
  have seq: "setup_sequence scenario_B scenario_config (kubeConn ?meta) ''8080'' =
       [CallServicesGet (nameSpace (kubeConn ?meta)) (serviceName (kubeConn ?meta)),
        LogError (''failed to get service selector: service '' @ serviceName (kubeConn ?meta) @
                  '' has no selector''),
        SendErrCh (Errorf (''service '' @ serviceName (kubeConn ?meta) @ '' has no selector'')),
        CloseErrCh]"
    and nf: "\<not> forwarding (run [Setup, Forwarder, Setup, Setup, SelectErr, Setup]
        (tryPortForwardIfNeeded ?meta scenario_B False False ''8080''))"
    unfolding Let_def by blast+
  have "setup_sequence scenario_B scenario_config (kubeConn ?meta) ''8080'' =
     [CallServicesGet ''db'' ''crdb'',
      LogError ''failed to get service selector: service crdb has no selector'',
      SendErrCh (Errorf ''service crdb has no selector''),
      CloseErrCh]"
    unfolding seq names by simp
  with nf empty scenario_cfg(1) show ?thesis by blast
qed


theorem nil_config_noop_witness:
  "kubeConfig (kubeConn (scenario_client None)) = None \<and>
   result (tryPortForwardIfNeeded (scenario_client None) scenario_D True False ''8080'') =
     Some NilDiags \<and>
   stopCh (tryPortForwardIfNeeded (scenario_client None) scenario_D True False ''8080'') =
     True \<and>
   readyCh (tryPortForwardIfNeeded (scenario_client None) scenario_D True False ''8080'') =
     False \<and>
   run [Setup, Forwarder, Signal, SelectReady, SelectErr]
     (tryPortForwardIfNeeded (scenario_client None) scenario_D True False ''8080'') =
     tryPortForwardIfNeeded (scenario_client None) scenario_D True False ''8080''"
  using nil_config_noop [OF scenario_cfg(2), of scenario_D True False "''8080''"
      "[Setup, Forwarder, Signal, SelectReady, SelectErr]"] scenario_cfg(2)
  by blast

theorem errCh_single_send_witness:
  "kubeConfig (kubeConn (scenario_client (Some scenario_config))) = Some scenario_config \<and>
   todo (run [Setup, Setup, Setup, Setup, Setup, Setup, Forwarder, Setup, Setup, Setup]
          (tryPortForwardIfNeeded (scenario_client (Some scenario_config)) scenario_D
             False False ''8080'')) =
     [SendErrCh (Errorf ''unexpected number of forwarded ports: got 2, expected 1''),
      CloseErrCh] \<and>
   \<not> panicked (run [Setup, Setup, Setup, Setup, Setup, Setup, Forwarder, Setup, Setup, Setup]
          (tryPortForwardIfNeeded (scenario_client (Some scenario_config)) scenario_D
             False False ''8080'')) \<and>
   errCh (run [Setup, Setup, Setup, Setup, Setup, Setup, Forwarder, Setup, Setup, Setup]
          (tryPortForwardIfNeeded (scenario_client (Some scenario_config)) scenario_D
             False False ''8080'')) = [] \<and>
   errCh (step Setup
          (run [Setup, Setup, Setup, Setup, Setup, Setup, Forwarder, Setup, Setup, Setup]
          (tryPortForwardIfNeeded (scenario_client (Some scenario_config)) scenario_D
             False False ''8080''))) =
     [Errorf ''unexpected number of forwarded ports: got 2, expected 1''] \<and>
   length (sends (setup_sequence scenario_D scenario_config
      (kubeConn (scenario_client (Some scenario_config))) ''8080'')) \<le> 1"
proof -
  let ?sched = "[Setup, Setup, Setup, Setup, Setup, Setup, Forwarder, Setup, Setup, Setup]"
  let ?init = "tryPortForwardIfNeeded (scenario_client (Some scenario_config)) scenario_D
             False False ''8080''"
  let ?e = "Errorf ''unexpected number of forwarded ports: got 2, expected 1''"
  have td: "todo (run ?sched ?init) = [SendErrCh ?e, CloseErrCh]"
    and np: "\<not> panicked (run ?sched ?init)"
    by (simp_all add: initial_state [OF scenario_cfg(1)] scenario_D_sequence advance_def)
  from errCh_single_send [OF scenario_cfg(1), of scenario_D "''8080''" ?sched False False]
  have "length (sends (setup_sequence scenario_D scenario_config
      (kubeConn (scenario_client (Some scenario_config))) ''8080'')) \<le> 1"
    and "\<forall>e rest. todo (run ?sched ?init) = SendErrCh e # rest \<longrightarrow>
          errCh (run ?sched ?init) = [] \<and> \<not> errChClosed (run ?sched ?init) \<and>
          rest = [CloseErrCh] \<and>
          (\<not> panicked (run ?sched ?init) \<longrightarrow>
             errCh (step Setup (run ?sched ?init)) = [e] \<and>
             todo (step Setup (run ?sched ?init)) = rest \<and>
             performed (step Setup (run ?sched ?init)) =
               performed (run ?sched ?init) @ [SendErrCh e])"
    unfolding Let_def by blast+
  with td np scenario_cfg(1) show ?thesis by blast
qed

end
